theory Spec2Isabelle
  imports Main "HOL-Library.Word"
begin

unbundle bit_operations_syntax

section \<open>Common types\<close>

type_synonym byte = "8 word"
type_synonym uint32 = "32 word"
type_synonym uint64 = "64 word"

text \<open>
  Go error values that the modelled functions return or pass on. A Go \<open>error\<close> is an
  interface value; the constructor records its dynamic type, which is what a type
  switch inspects.
  \<^item> \<open>ErrOffsetNotFound\<close>: the package variable of \<open>internal/server/log.go\<close>
    (\<open>errors.New("offset not found")\<close>).
  \<^item> \<open>PtrErrorOffsetOutOfRange off\<close>: a value of dynamic type
    \<open>*api.ErrorOffsetOutOfRange\<close>. Both methods of the type (\<open>GRPCStatus\<close>, \<open>Error\<close>) have
    pointer receivers, so only the pointer type implements \<open>error\<close>; the log test
    asserts \<open>err.(*api.ErrorOffsetOutOfRange)\<close>.
  \<^item> \<open>EOF\<close>: \<open>io.EOF\<close>.
  \<^item> \<open>IOError msg\<close>: a failure of a file or network operation.
  \<^item> \<open>RaftError msg\<close>: an error reported by a future of the consensus library.
\<close>

datatype error =
    ErrOffsetNotFound
  | PtrErrorOffsetOutOfRange uint64
  | EOF
  | IOError string
  | RaftError string

section \<open>The in-memory log (internal/server/log.go)\<close>

record Record =
  Value :: "byte list"
  Offset :: uint64

record Log =
  records :: "Record list"

definition NewLog :: Log where
  "NewLog = \<lparr> records = [] \<rparr>"

text \<open>
  \<open>Log.Append\<close>: the offset is \<open>uint64(len(l.records))\<close>; the record is stored with that
  offset; the error result is always \<open>nil\<close>. The result is the pair of the Go return
  value and the updated log.
\<close>

definition Log_Append :: "Log \<Rightarrow> Record \<Rightarrow> (error + uint64) \<times> Log" where
  "Log_Append l record =
     (let record' = record\<lparr> Offset := of_nat (length (records l)) \<rparr>
      in (Inr (Offset record'), l\<lparr> records := records l @ [record'] \<rparr>))"

text \<open>
  \<open>Log.Read\<close>: \<open>ErrOffsetNotFound\<close> when \<open>offset >= uint64(len(l.records))\<close>, otherwise
  the record at that index. The log itself is not changed.
\<close>

definition Log_Read :: "Log \<Rightarrow> uint64 \<Rightarrow> error + Record" where
  "Log_Read l offset =
     (if offset \<ge> of_nat (length (records l)) then Inl ErrOffsetNotFound
      else Inr (records l ! unat offset))"

text \<open>Successive \<open>Append\<close> calls on one log; the results are kept in call order.\<close>

fun Log_Appends :: "Log \<Rightarrow> Record list \<Rightarrow> (error + uint64) list \<times> Log" where
  "Log_Appends l [] = ([], l)"
| "Log_Appends l (r # rs) =
     (case Log_Append l r of (res, l') \<Rightarrow>
        (case Log_Appends l' rs of (ress, l'') \<Rightarrow> (res # ress, l'')))"

section \<open>Results of calls that may panic\<close>

text \<open>
  A Go call either returns its results or panics (a slice expression out of range, a
  failed type assertion, closing a closed channel). The message names the cause.
\<close>

datatype 'a result = Return 'a | Panic string

section \<open>The store (store.Append)\<close>

definition lenWidth :: nat where
  "lenWidth = 8"

text \<open>
  \<open>enc = binary.BigEndian\<close>: \<open>PutUint32\<close> and \<open>PutUint64\<close> lay a word out most
  significant byte first (\<open>b[0] = byte(v >> 24)\<close>, ...); \<open>Uint32\<close> and \<open>Uint64\<close> read
  such a layout back by shifting and or-ing the bytes.
\<close>

definition be_bytes :: "nat \<Rightarrow> 'a::len word \<Rightarrow> byte list" where
  "be_bytes n w = map (\<lambda>k. ucast (drop_bit (8 * k) w)) (rev [0..<n])"

definition be_word :: "byte list \<Rightarrow> 'a::len word" where
  "be_word bs = foldl (\<lambda>acc b. push_bit 8 acc OR ucast b) 0 bs"

definition PutUint32 :: "uint32 \<Rightarrow> byte list" where
  "PutUint32 v = be_bytes 4 v"

definition PutUint64 :: "uint64 \<Rightarrow> byte list" where
  "PutUint64 v = be_bytes 8 v"

definition Uint32 :: "byte list \<Rightarrow> uint32" where
  "Uint32 b = be_word (take 4 b)"

definition Uint64 :: "byte list \<Rightarrow> uint64" where
  "Uint64 b = be_word (take 8 b)"

text \<open>
  The store's fields: \<open>buf\<close> is the sequence of bytes the buffered writer has accepted
  so far (whether still buffered or already passed on to the file), \<open>size\<close> the size
  field.
\<close>

record store =
  store_buf :: "byte list"
  store_size :: uint64

text \<open>
  What the environment does to one \<open>Write\<close> on the buffered writer: it goes through, or
  the writer accepts only the first \<open>k\<close> bytes and reports an error (\<open>bufio.Writer.Write\<close>
  returns the number of bytes accepted together with the error).
\<close>

datatype fault = NoFault | ShortWrite nat error

definition Writer_Write :: "fault \<Rightarrow> byte list \<Rightarrow> byte list \<Rightarrow> byte list \<times> nat \<times> error option" where
  "Writer_Write flt w p =
     (case flt of
        NoFault \<Rightarrow> (w @ p, length p, None)
      | ShortWrite k e \<Rightarrow> (w @ take k p, min k (length p), Some e))"

text \<open>
  \<open>newStore\<close>: the size field starts as the size of the file (\<open>os.Stat\<close> may fail);
  nothing has gone through the writer yet.
\<close>

definition newStore :: "error option \<Rightarrow> byte list \<Rightarrow> error + store" where
  "newStore stat_err file_bytes =
     (case stat_err of
        Some e \<Rightarrow> Inl e
      | None \<Rightarrow> Inr \<lparr> store_buf = [], store_size = of_nat (length file_bytes) \<rparr>)"

text \<open>
  \<open>store.Append\<close>, with the faults of its two writes as parameters: \<open>f1\<close> for
  \<open>binary.Write\<close> of the length header, \<open>f2\<close> for \<open>s.buf.Write(p)\<close>. It returns
  \<open>(n, pos)\<close> or the error, and the store as the call leaves it.
\<close>

definition store_Append ::
  "fault \<Rightarrow> fault \<Rightarrow> store \<Rightarrow> byte list \<Rightarrow> (error + (uint64 \<times> uint64)) \<times> store" where
  "store_Append f1 f2 s p =
     (let pos = store_size s in
      case Writer_Write f1 (store_buf s) (PutUint64 (of_nat (length p))) of
        (b1, _, Some e) \<Rightarrow> (Inl e, s\<lparr> store_buf := b1 \<rparr>)
      | (b1, _, None) \<Rightarrow>
          (case Writer_Write f2 b1 p of
             (b2, _, Some e) \<Rightarrow> (Inl e, s\<lparr> store_buf := b2 \<rparr>)
           | (b2, w, None) \<Rightarrow>
               (let w' = w + lenWidth
                in (Inr (of_nat w', pos),
                    s\<lparr> store_buf := b2, store_size := store_size s + of_nat w' \<rparr>))))"

text \<open>
  A sequence of \<open>Append\<close> calls on one store, each with its payload and the faults of
  its two writes. A failed call does not stop the sequence: the caller may go on
  appending.
\<close>

fun store_Appends ::
  "store \<Rightarrow> (fault \<times> fault \<times> byte list) list \<Rightarrow> (error + (uint64 \<times> uint64)) list \<times> store" where
  "store_Appends s [] = ([], s)"
| "store_Appends s ((f1, f2, p) # cs) =
     (case store_Append f1 f2 s p of (res, s') \<Rightarrow>
        (case store_Appends s' cs of (ress, s'') \<Rightarrow> (res # ress, s'')))"

text \<open>The framed length of a payload if its \<open>Append\<close> succeeded, and nothing if it failed.\<close>

definition framed :: "(error + (uint64 \<times> uint64)) \<times> (fault \<times> fault \<times> byte list) \<Rightarrow> nat" where
  "framed rc = (case rc of (Inr _, (_, _, p)) \<Rightarrow> lenWidth + length p | (Inl _, _) \<Rightarrow> 0)"

section \<open>The index (internal/log/index.go)\<close>

definition offWidth :: uint64 where
  "offWidth = 4"

definition posWidth :: uint64 where
  "posWidth = 8"

definition entWidth :: uint64 where
  "entWidth = offWidth + posWidth"

text \<open>
  The index's fields: \<open>mmap\<close> is the mapped file as a byte slice, \<open>size\<close> the number of
  bytes in use.
\<close>

record index =
  index_mmap :: "byte list"
  index_size :: uint64

text \<open>
  The slice expression \<open>m[lo:hi]\<close> with \<open>uint64\<close> bounds: it panics unless
  \<open>lo \<le> hi \<le> len(m)\<close>.
\<close>

definition slice :: "byte list \<Rightarrow> uint64 \<Rightarrow> uint64 \<Rightarrow> byte list option" where
  "slice m lo hi =
     (if unat lo \<le> unat hi \<and> unat hi \<le> length m
      then Some (take (unat hi - unat lo) (drop (unat lo) m))
      else None)"

text \<open>Writing \<open>bs\<close> through the slice \<open>m[lo:lo+len(bs)]\<close>: the bytes of \<open>m\<close> from \<open>lo\<close> on are replaced.\<close>

definition write_at :: "byte list \<Rightarrow> nat \<Rightarrow> byte list \<Rightarrow> byte list" where
  "write_at m lo bs = take lo m @ bs @ drop (lo + length bs) m"

text \<open>
  \<open>index.Read\<close>. The argument is an \<open>int64\<close>; \<open>int32(...)\<close> keeps the low 32 bits
  (\<open>ucast\<close>), \<open>uint64(out)\<close> of the \<open>int32\<close> extends the sign (\<open>scast\<close>); all arithmetic
  wraps at 64 bits. The result is \<open>(out, pos, err)\<close>.
\<close>

definition index_Read :: "index \<Rightarrow> 64 word \<Rightarrow> (32 word \<times> uint64 \<times> error option) result" where
  "index_Read i inp =
     (if index_size i = 0 then Return (0, 0, None)
      else
        let out = (if inp = - 1 then (ucast ((index_size i div entWidth) - 1) :: 32 word)
                   else (ucast inp :: 32 word));
            pos = (scast out :: uint64) * entWidth
        in if index_size i < pos + entWidth then Return (0, 0, Some EOF)
           else
             (case slice (index_mmap i) pos (pos + offWidth) of
                None \<Rightarrow> Panic ''slice bounds out of range''
              | Some a \<Rightarrow>
                  (case slice (index_mmap i) (pos + offWidth) (pos + entWidth) of
                     None \<Rightarrow> Panic ''slice bounds out of range''
                   | Some b \<Rightarrow> Return (Uint32 a, Uint64 b, None))))"

text \<open>
  \<open>index.Write\<close>. \<open>uint32(off)\<close> of the \<open>int32\<close> argument keeps the bits. The result is
  the returned error and the index as the call leaves it.
\<close>

definition index_Write :: "index \<Rightarrow> 32 word \<Rightarrow> uint64 \<Rightarrow> error option result \<times> index" where
  "index_Write i off pos =
     (if (of_nat (length (index_mmap i)) :: uint64) < index_size i + entWidth
      then (Return (Some EOF), i)
      else
        (case slice (index_mmap i) (index_size i) (index_size i + offWidth) of
           None \<Rightarrow> (Panic ''slice bounds out of range'', i)
         | Some _ \<Rightarrow>
             (let m1 = write_at (index_mmap i) (unat (index_size i)) (PutUint32 off)
              in case slice m1 (index_size i + offWidth) (index_size i + entWidth) of
                   None \<Rightarrow> (Panic ''slice bounds out of range'', i\<lparr> index_mmap := m1 \<rparr>)
                 | Some _ \<Rightarrow>
                     (let m2 = write_at m1 (unat (index_size i + offWidth)) (PutUint64 pos)
                      in (Return None,
                          i\<lparr> index_mmap := m2, index_size := index_size i + entWidth \<rparr>)))))"

text \<open>
  The behaviour of \<open>Read\<close> as the specification words it, over the mathematical
  integers: an empty index gives \<open>(0, 0, nil)\<close>; the relative offset is
  \<open>size / entryWidth - 1\<close> for \<open>-1\<close> and the argument itself otherwise; the byte
  position is the relative offset times the entry width; past the end of the data the
  result is end-of-data; otherwise the \<open>(u32, u64)\<close> at that position is decoded and
  returned. The result is the triple \<open>(out, pos, err)\<close>.
\<close>

definition decode_entry :: "index \<Rightarrow> nat \<Rightarrow> 32 word \<times> uint64 \<times> error option" where
  "decode_entry i p =
     (Uint32 (take 4 (drop p (index_mmap i))), Uint64 (take 8 (drop (p + 4) (index_mmap i))), None)"

definition index_Read_spec :: "index \<Rightarrow> int \<Rightarrow> 32 word \<times> uint64 \<times> error option" where
  "index_Read_spec i n =
     (if index_size i = 0 then (0, 0, None)
      else
        let relOffset = (if n = - 1 then uint (index_size i) div 12 - 1 else n);
            pos = relOffset * 12
        in if pos + 12 > uint (index_size i) then (0, 0, Some EOF)
           else decode_entry i (nat pos))"

text \<open>
  An index for examples: a mapping of 36 bytes holding the two entries \<open>(0, 0)\<close> and
  \<open>(1, 19)\<close>, with room for a third.
\<close>

definition example_index :: index where
  "example_index =
     \<lparr> index_mmap = [0, 0, 0, 0,  0, 0, 0, 0, 0, 0, 0, 0,
                     0, 0, 0, 1,  0, 0, 0, 0, 0, 0, 0, 19,
                     0, 0, 0, 0,  0, 0, 0, 0, 0, 0, 0, 0],
       index_size = 24 \<rparr>"

text \<open>
  An index as \<open>newIndex\<close> leaves it when the file it opens is larger than
  \<open>MaxIndexBytes\<close>: \<open>size\<close> is the old file size, 24, and the mapping has the 12 bytes the
  file was truncated to.
\<close>

definition oversized_index :: index where
  "oversized_index =
     \<lparr> index_mmap = [0, 0, 0, 0,  0, 0, 0, 0, 0, 0, 0, 0], index_size = 24 \<rparr>"

section \<open>The replicated log: membership (DistributedLog.Join)\<close>

text \<open>
  The consensus library is outside the repository and is taken as it answers. A
  configuration is a list of servers. \<open>Join\<close> makes membership requests,
  \<open>RemoveServer(id, 0, 0)\<close> and \<open>AddVoter(id, addr, 0, 0)\<close>, and looks at the error of
  each future. A trace lists the requests made so far, each with the error its future
  reported (\<open>None\<close> for \<open>nil\<close>: the change was made). The library's answer to a request
  may depend on everything that went before (who leads, whether the node has shut
  down, what was removed), so it is a function of the trace and the request.
\<close>

datatype ServerSuffrage = Voter | Nonvoter | Staging

record Server =
  Suffrage :: ServerSuffrage
  ID :: string
  Address :: string

datatype raft_request = RemoveServer string | AddVoter string string

type_synonym raft_trace = "(raft_request \<times> error option) list"

type_synonym raft_answers = "raft_trace \<Rightarrow> raft_request \<Rightarrow> error option"

definition ErrNotLeader :: error where
  "ErrNotLeader = RaftError ''node is not the leader''"

text \<open>
  The loop of \<open>Join\<close> over the servers of the configuration it fetched at the start.
  \<open>Some res\<close> in the first component: the loop returned \<open>res\<close> from \<open>Join\<close>; \<open>None\<close>: it
  ran to its end.
\<close>

fun Join_loop ::
  "raft_answers \<Rightarrow> string \<Rightarrow> string \<Rightarrow> Server list \<Rightarrow> raft_trace \<Rightarrow> error option option \<times> raft_trace" where
  "Join_loop answer sid addr [] tr = (None, tr)"
| "Join_loop answer sid addr (srv # srvs) tr =
     (if ID srv = sid \<or> Address srv = addr then
        (if ID srv = sid \<and> Address srv = addr then (Some None, tr)
         else
           (case answer tr (RemoveServer (ID srv)) of
              Some err \<Rightarrow> (Some (Some err), tr @ [(RemoveServer (ID srv), Some err)])
            | None \<Rightarrow> Join_loop answer sid addr srvs (tr @ [(RemoveServer (ID srv), None)])))
      else Join_loop answer sid addr srvs tr)"

text \<open>
  \<open>DistributedLog.Join\<close>. \<open>config\<close> is what the future of \<open>GetConfiguration\<close> holds: its
  error or the configuration's servers. The result is the returned error and the
  trace of the membership requests the call made.
\<close>

definition DistributedLog_Join ::
  "raft_answers \<Rightarrow> error + Server list \<Rightarrow> string \<Rightarrow> string \<Rightarrow> error option \<times> raft_trace" where
  "DistributedLog_Join answer config sid addr =
     (case config of
        Inl err \<Rightarrow> (Some err, [])
      | Inr srvs \<Rightarrow>
          (case Join_loop answer sid addr srvs [] of
             (Some res, tr) \<Rightarrow> (res, tr)
           | (None, tr) \<Rightarrow>
               (answer tr (AddVoter sid addr),
                tr @ [(AddVoter sid addr, answer tr (AddVoter sid addr))])))"

text \<open>
  Making a list of requests in order, up to and including the first whose future
  reports an error; that error, or \<open>None\<close> if every request was granted, is returned
  with the trace.
\<close>

fun make_requests :: "raft_answers \<Rightarrow> raft_trace \<Rightarrow> raft_request list \<Rightarrow> error option \<times> raft_trace" where
  "make_requests answer tr [] = (None, tr)"
| "make_requests answer tr (q # qs) =
     (case answer tr q of
        Some err \<Rightarrow> (Some err, tr @ [(q, Some err)])
      | None \<Rightarrow> make_requests answer (tr @ [(q, None)]) qs)"

text \<open>
  The requests of a \<open>Join(id, addr)\<close> that finds no server with both the ID and the
  address: the removal, by ID, of every server that has the ID or the address, in
  the order of the configuration, and then the addition of \<open>(id, addr)\<close> as a voter.
\<close>

definition Join_requests :: "Server list \<Rightarrow> string \<Rightarrow> string \<Rightarrow> raft_request list" where
  "Join_requests srvs sid addr =
     map (\<lambda>s. RemoveServer (ID s)) (filter (\<lambda>s. ID s = sid \<or> Address s = addr) srvs)
       @ [AddVoter sid addr]"

text \<open>
  For examples: a configuration of two servers, a leader that grants every request,
  and a follower, whose every membership request fails with \<open>ErrNotLeader\<close>.
\<close>

definition example_servers :: "Server list" where
  "example_servers =
     [\<lparr> Suffrage = Voter, ID = ''0'', Address = ''10.0.0.1:8400'' \<rparr>,
      \<lparr> Suffrage = Voter, ID = ''1'', Address = ''10.0.0.2:8400'' \<rparr>]"

definition granting_leader :: raft_answers where
  "granting_leader = (\<lambda>tr q. None)"

definition follower :: raft_answers where
  "follower = (\<lambda>tr q. Some ErrNotLeader)"

text \<open>
  A leader whose own ID is \<open>''0''\<close>: it grants requests until it has removed itself,
  and is shut down from then on.
\<close>

definition ErrRaftShutdown :: error where
  "ErrRaftShutdown = RaftError ''raft is already shutdown''"

definition leader_0 :: raft_answers where
  "leader_0 = (\<lambda>tr q. if (RemoveServer ''0'', None) \<in> set tr then Some ErrRaftShutdown else None)"

section \<open>The replicated log: the apply path (DistributedLog.Append)\<close>

text \<open>
  The values an FSM response (an \<open>interface{}\<close>) can hold: an error, a
  \<open>*api.ProduceResponse\<close> (what \<open>fsm.applyAppend\<close> returns on success), a
  \<open>*AppendResponse\<close> (the type \<open>Append\<close> asserts), or \<open>nil\<close>.
\<close>

datatype response =
    ErrorResponse error
  | ProduceResponse uint64
  | AppendResponse uint64
  | NilResponse

text \<open>
  \<open>fsm.applyAppend\<close>: the error of \<open>proto.Unmarshal\<close> or of the log's \<open>Append\<close> as the
  response, otherwise a \<open>*api.ProduceResponse\<close> with the offset the log assigned.
\<close>

definition fsm_applyAppend :: "error option \<Rightarrow> error + uint64 \<Rightarrow> response" where
  "fsm_applyAppend unmarshal_err appended =
     (case unmarshal_err of
        Some err \<Rightarrow> ErrorResponse err
      | None \<Rightarrow>
          (case appended of
             Inl err \<Rightarrow> ErrorResponse err
           | Inr offset \<Rightarrow> ProduceResponse offset))"

text \<open>What the future of \<open>raft.Apply\<close> delivers: its own error, or the FSM's response.\<close>

datatype apply_future = FutureError error | FutureResponse response

text \<open>
  \<open>DistributedLog.apply\<close>: writing to the \<open>bytes.Buffer\<close> does not fail; \<open>proto.Marshal\<close>
  may (\<open>marshal_err\<close>); then the future's error, then an error held by the response.
\<close>

definition DistributedLog_apply :: "error option \<Rightarrow> apply_future \<Rightarrow> error + response" where
  "DistributedLog_apply marshal_err fut =
     (case marshal_err of
        Some e \<Rightarrow> Inl e
      | None \<Rightarrow>
          (case fut of
             FutureError e \<Rightarrow> Inl e
           | FutureResponse res \<Rightarrow>
               (case res of ErrorResponse e \<Rightarrow> Inl e | _ \<Rightarrow> Inr res)))"

text \<open>
  \<open>DistributedLog.Append\<close>: \<open>if err != nil { return 0, nil }\<close>, then the type assertion
  \<open>res.(*AppendResponse)\<close>, which panics on any other dynamic type. The result is the
  pair \<open>(offset, err)\<close>.
\<close>

definition DistributedLog_Append :: "error option \<Rightarrow> apply_future \<Rightarrow> (uint64 \<times> error option) result" where
  "DistributedLog_Append marshal_err fut =
     (case DistributedLog_apply marshal_err fut of
        Inl err \<Rightarrow> Return (0, None)
      | Inr res \<Rightarrow>
          (case res of
             AppendResponse off \<Rightarrow> Return (off, None)
           | _ \<Rightarrow> Panic ''interface conversion: interface {} is not *log.AppendResponse''))"

section \<open>The RPC server (grpcServer.ConsumeStream)\<close>

text \<open>
  The dynamic types of the error values. \<open>T_ErrorOffsetOutOfRange\<close> is the struct type
  \<open>api.ErrorOffsetOutOfRange\<close> itself, which has no methods and so is the dynamic type
  of no error value; \<open>T_ptr_ErrorOffsetOutOfRange\<close> is the pointer type, which
  implements \<open>error\<close>.
\<close>

datatype go_type =
    T_ptr_errorString
  | T_ptr_ErrorOffsetOutOfRange
  | T_ErrorOffsetOutOfRange
  | T_ptr_PathError

fun dynamic_type :: "error \<Rightarrow> go_type" where
  "dynamic_type ErrOffsetNotFound = T_ptr_errorString"
| "dynamic_type (PtrErrorOffsetOutOfRange off) = T_ptr_ErrorOffsetOutOfRange"
| "dynamic_type EOF = T_ptr_errorString"
| "dynamic_type (IOError msg) = T_ptr_PathError"
| "dynamic_type (RaftError msg) = T_ptr_errorString"

text \<open>
  What surrounds one run of \<open>ConsumeStream\<close>, by iteration of its loop: whether the
  client's context is done, what \<open>CommitLog.Read\<close> returns for an offset (the log may
  grow while the stream runs), and whether \<open>stream.Send\<close> fails.
\<close>

record stream_env =
  ctx_done :: "nat \<Rightarrow> bool"
  CommitLog_Read :: "nat \<Rightarrow> uint64 \<Rightarrow> error + Record"
  stream_Send :: "nat \<Rightarrow> Record \<Rightarrow> error option"

text \<open>\<open>grpcServer.Consume\<close> at iteration \<open>k\<close>: the record in a response, or the error as it is.\<close>

definition grpcServer_Consume :: "stream_env \<Rightarrow> nat \<Rightarrow> uint64 \<Rightarrow> error + Record" where
  "grpcServer_Consume env k off =
     (case CommitLog_Read env k off of Inl err \<Rightarrow> Inl err | Inr record \<Rightarrow> Inr record)"

text \<open>
  \<open>grpcServer.ConsumeStream\<close>. The loop may run forever, so it runs on fuel: \<open>None\<close>
  means the fuel ran out with the loop still going. Otherwise the result is the
  returned error, the final \<open>req.Offset\<close> and the records sent. The type switch
  continues on the case type \<open>api.ErrorOffsetOutOfRange\<close> and returns every other
  error.
\<close>

fun grpcServer_ConsumeStream ::
  "nat \<Rightarrow> stream_env \<Rightarrow> nat \<Rightarrow> uint64 \<Rightarrow> Record list \<Rightarrow> (error option \<times> uint64 \<times> Record list) option" where
  "grpcServer_ConsumeStream 0 env k off sent = None"
| "grpcServer_ConsumeStream (Suc fuel) env k off sent =
     (if ctx_done env k then Some (None, off, sent)
      else
        (case grpcServer_Consume env k off of
           Inr resp \<Rightarrow>
             (case stream_Send env k resp of
                Some err \<Rightarrow> Some (Some err, off, sent)
              | None \<Rightarrow> grpcServer_ConsumeStream fuel env (Suc k) (off + 1) (sent @ [resp]))
         | Inl err \<Rightarrow>
             (if dynamic_type err = T_ErrorOffsetOutOfRange
              then grpcServer_ConsumeStream fuel env (Suc k) off sent
              else Some (Some err, off, sent))))"

text \<open>
  Modelled from the spec: \<open>Log.Read\<close> of the segmented log (\<open>internal/log/log.go\<close> is not
  among the sources) on a log that holds no record. If no segment covers the offset
  it fails with \<open>OffsetOutOfRange\<close> carrying the offset; the log test
  \<open>testOutOfRangeErr\<close> fixes the dynamic type as \<open>*api.ErrorOffsetOutOfRange\<close>. The
  client never cancels and sending never fails.
\<close>

definition empty_log_env :: stream_env where
  "empty_log_env =
     \<lparr> ctx_done = (\<lambda>k. False),
       CommitLog_Read = (\<lambda>k off. Inl (PtrErrorOffsetOutOfRange off)),
       stream_Send = (\<lambda>k record. None) \<rparr>"

section \<open>The replicator (internal/log/replicator.go)\<close>

text \<open>
  The fields of \<open>Replicator\<close> that \<open>Join\<close> and \<open>Close\<close> use, under its mutex: \<open>logger\<close>
  (\<open>None\<close> is \<open>nil\<close>), the map \<open>servers\<close> from a peer's name to its leave channel
  (\<open>None\<close> is the \<open>nil\<close> map), the flag \<open>closed\<close> and the channel \<open>close\<close>. Two more
  fields stand for the runtime: \<open>chans\<close>, the channels made so far (a channel is its
  index; \<open>True\<close> while open), and \<open>goroutines\<close>, the \<open>replicate(addrs, leave)\<close> calls
  started with \<open>go\<close>, in order.
\<close>

record Replicator =
  logger :: "string option"
  servers :: "(string \<rightharpoonup> nat) option"
  closed :: bool
  close :: "nat option"
  chans :: "bool list"
  goroutines :: "(string \<times> nat) list"

text \<open>The zero value \<open>Replicator{}\<close> in a program that has made no channel yet.\<close>

definition zero_Replicator :: Replicator where
  "zero_Replicator =
     \<lparr> logger = None, servers = None, closed = False, close = None, chans = [], goroutines = [] \<rparr>"

definition Replicator_init :: "Replicator \<Rightarrow> Replicator" where
  "Replicator_init r =
     (let r1 = (if logger r = None then r\<lparr> logger := Some ''replicator'' \<rparr> else r);
          r2 = (if servers r1 = None then r1\<lparr> servers := Some Map.empty \<rparr> else r1)
      in if close r2 = None
         then r2\<lparr> close := Some (length (chans r2)), chans := chans r2 @ [True] \<rparr>
         else r2)"

text \<open>The peers with a replication task: the keys of \<open>servers\<close> (none for the \<open>nil\<close> map).\<close>

definition task_map :: "Replicator \<Rightarrow> (string \<rightharpoonup> nat)" where
  "task_map r = (case servers r of None \<Rightarrow> Map.empty | Some m \<Rightarrow> m)"

definition Replicator_Join :: "string \<Rightarrow> string \<Rightarrow> Replicator \<Rightarrow> error option result \<times> Replicator" where
  "Replicator_Join name addrs r0 =
     (let r = Replicator_init r0 in
      if closed r then (Return None, r)
      else
        (case servers r of
           None \<Rightarrow> (Panic ''assignment to entry in nil map'', r)
         | Some m \<Rightarrow>
             (case m name of
                Some _ \<Rightarrow> (Return None, r)
              | None \<Rightarrow>
                  (let c = length (chans r)
                   in (Return None,
                       r\<lparr> servers := Some (m(name \<mapsto> c)),
                          chans := chans r @ [True],
                          goroutines := goroutines r @ [(addrs, c)] \<rparr>)))))"

definition Replicator_Close :: "Replicator \<Rightarrow> error option result \<times> Replicator" where
  "Replicator_Close r0 =
     (let r = Replicator_init r0 in
      if closed r then (Return None, r)
      else
        (let r' = r\<lparr> closed := True \<rparr> in
         case close r' of
           None \<Rightarrow> (Panic ''close of nil channel'', r')
         | Some c \<Rightarrow>
             (if c < length (chans r') \<and> chans r' ! c
              then (Return None, r'\<lparr> chans := (chans r')[c := False] \<rparr>)
              else (Panic ''close of closed channel'', r'))))"

text \<open>
  Replicators for examples: the zero value after \<open>Join("1", "10.0.0.2:8401")\<close>, and the
  zero value after \<open>Close()\<close>.
\<close>

definition joined_Replicator :: Replicator where
  "joined_Replicator =
     \<lparr> logger = Some ''replicator'', servers = Some [''1'' \<mapsto> 1], closed = False,
       close = Some 0, chans = [True, True], goroutines = [(''10.0.0.2:8401'', 1)] \<rparr>"

definition closed_Replicator :: Replicator where
  "closed_Replicator =
     \<lparr> logger = Some ''replicator'', servers = Some Map.empty, closed = True,
       close = Some 0, chans = [False], goroutines = [] \<rparr>"

section \<open>Properties of the in-memory log\<close>

lemma unat_of_nat_len64:
  "n < 2 ^ 64 \<Longrightarrow> unat (of_nat n :: uint64) = n"
  by (simp add: unat_of_nat)

lemma Log_Append_Read_general:
  assumes "Suc (length (records l)) < 2 ^ 64"
  shows "Log_Read (snd (Log_Append l r)) (of_nat (length (records l)))
           = Inr (r\<lparr> Offset := of_nat (length (records l)) \<rparr>)"
proof -
  let ?n = "length (records l)"
  have u: "unat (of_nat ?n :: uint64) = ?n"
    using assms by (simp add: unat_of_nat_len64)
  have v: "unat (of_nat (Suc ?n) :: uint64) = Suc ?n"
    using assms by (rule unat_of_nat_len64)
  have nge: "\<not> (of_nat (Suc ?n) :: uint64) \<le> of_nat ?n"
    unfolding word_le_nat_alt u v by simp
  show ?thesis
    using nge u by (simp add: Log_Read_def Log_Append_def Let_def nth_append)
qed

text \<open>
  Claim C3 (Append/Read round trip). For every record \<open>r\<close>, appending \<open>r\<close> to a freshly
  created log returns an offset without error, and reading that offset back from the
  resulting log returns a record whose value bytes are those of \<open>r\<close> and whose offset
  is the returned offset.
\<close>

theorem Log_Append_Read_roundtrip:
  "\<exists>off l'. Log_Append NewLog r = (Inr off, l') \<and>
     (\<exists>r'. Log_Read l' off = Inr r' \<and> Value r' = Value r \<and> Offset r' = off)"
  by (simp add: Log_Append_def Log_Read_def NewLog_def Let_def)

lemma Log_Appends_results:
  "fst (Log_Appends l rs) = map (\<lambda>i. Inr (of_nat (length (records l) + i))) [0..<length rs]"
proof (induction rs arbitrary: l)
  case Nil
  then show ?case by simp
next
  case (Cons r rs)
  have len: "length (records (snd (Log_Append l r))) = Suc (length (records l))"
    by (simp add: Log_Append_def Let_def)
  have hd: "fst (Log_Append l r) = Inr (of_nat (length (records l)))"
    by (simp add: Log_Append_def Let_def)
  have "fst (Log_Appends l (r # rs)) = fst (Log_Append l r) # fst (Log_Appends (snd (Log_Append l r)) rs)"
    by (simp split: prod.splits)
  also have "\<dots> = Inr (of_nat (length (records l))) #
       map (\<lambda>i. Inr (of_nat (Suc (length (records l)) + i))) [0..<length rs]"
    by (simp only: hd Cons.IH len)
  also have "\<dots> = map (\<lambda>i. Inr (of_nat (length (records l) + i))) [0..<length (r # rs)]"
    by (simp add: upt_rec [of 0] map_Suc_upt [symmetric] del: upt_Suc)
  finally show ?case .
qed

text \<open>
  Claim C4 (offset monotonicity). On a fresh log, the \<open>i\<close>-th \<open>Append\<close> of any sequence
  of calls (counting from zero) succeeds and returns the offset \<open>i\<close>: the offsets are
  0, 1, 2, ... in call order, strictly increasing and without gaps. The length bound
  is that of a Go slice, whose length is an \<open>int\<close>.
\<close>

theorem Log_Append_offsets_sequential:
  assumes "length rs \<le> 2 ^ 64" and "i < length rs"
  shows "\<exists>off. fst (Log_Appends NewLog rs) ! i = Inr off \<and> unat off = i"
proof -
  have "i < 2 ^ 64" using assms by simp
  then have "unat (of_nat i :: uint64) = i" by (rule unat_of_nat_len64)
  moreover have "fst (Log_Appends NewLog rs) ! i = Inr (of_nat i)"
    using assms(2) by (simp add: Log_Appends_results NewLog_def)
  ultimately show ?thesis by blast
qed

theorem Log_Append_offsets_sequential_witness:
  "length [\<lparr>Value = [1], Offset = 7\<rparr>, \<lparr>Value = [], Offset = 0\<rparr>, \<lparr>Value = [2, 3], Offset = 0\<rparr>] \<le> 2 ^ 64
   \<and> (2::nat) < length [\<lparr>Value = [1], Offset = 7\<rparr>, \<lparr>Value = [], Offset = 0\<rparr>, \<lparr>Value = [2, 3], Offset = 0\<rparr>]
   \<and> (\<exists>off. fst (Log_Appends NewLog
         [\<lparr>Value = [1], Offset = 7\<rparr>, \<lparr>Value = [], Offset = 0\<rparr>, \<lparr>Value = [2, 3], Offset = 0\<rparr>]) ! 2 = Inr off
        \<and> unat off = 2)"
  using Log_Append_offsets_sequential
    [of "[\<lparr>Value = [1], Offset = 7\<rparr>, \<lparr>Value = [], Offset = 0\<rparr>, \<lparr>Value = [2, 3], Offset = 0\<rparr>]" 2]
  by simp

section \<open>Properties of the store\<close>

lemma store_Append_success:
  assumes "store_Append f1 f2 s p = (Inr (n, pos), s')"
  shows "n = of_nat (8 + length p) \<and> pos = store_size s
         \<and> store_size s' = store_size s + of_nat (8 + length p)"
  using assms
  by (auto simp: store_Append_def Writer_Write_def lenWidth_def Let_def add.commute
           split: fault.splits)

lemma store_Append_size:
  "store_size (snd (store_Append f1 f2 s p))
     = store_size s + of_nat (framed (fst (store_Append f1 f2 s p), (f1, f2, p)))"
  by (auto simp: store_Append_def Writer_Write_def lenWidth_def Let_def framed_def add.commute
           split: fault.splits)

lemma store_Appends_size:
  "store_size (snd (store_Appends s cs))
     = store_size s + of_nat (sum_list (map framed (zip (fst (store_Appends s cs)) cs)))"
proof (induction cs arbitrary: s)
  case Nil
  then show ?case by simp
next
  case (Cons c cs)
  obtain f1 f2 p where c: "c = (f1, f2, p)" by (cases c) auto
  obtain res s' where a: "store_Append f1 f2 s p = (res, s')" by (cases "store_Append f1 f2 s p") auto
  obtain ress s'' where b: "store_Appends s' cs = (ress, s'')" by (cases "store_Appends s' cs") auto
  have 1: "store_size s' = store_size s + of_nat (framed (res, (f1, f2, p)))"
    using store_Append_size [of f1 f2 s p] a by simp
  have 2: "store_size s'' = store_size s' + of_nat (sum_list (map framed (zip ress cs)))"
    using Cons.IH [of s'] b by simp
  show ?case
    by (simp add: c a b 1 2 add.assoc)
qed

text \<open>
  Claim C5 (size accounting of \<open>store.Append\<close>). A successful \<open>Append(p)\<close> returns
  \<open>8 + len(p)\<close> as the number of bytes written and the size before the call as the
  position, and adds exactly \<open>8 + len(p)\<close> to the size field. Hence after any
  sequence of calls the size is the initial size plus the framed lengths of the
  payloads whose \<open>Append\<close> succeeded, and on a store opened on an empty file it is
  that sum itself.
\<close>

theorem store_Append_size_accounting:
  "(store_Append f1 f2 s p = (Inr (n, pos), s') \<longrightarrow>
      n = of_nat (8 + length p) \<and> (length p < 2 ^ 63 \<longrightarrow> unat n = 8 + length p)
      \<and> pos = store_size s
      \<and> store_size s' = store_size s + of_nat (8 + length p))
   \<and> store_size (snd (store_Appends s cs))
       = store_size s + of_nat (sum_list (map framed (zip (fst (store_Appends s cs)) cs)))
   \<and> (newStore None [] = Inr s0 \<longrightarrow>
        store_size (snd (store_Appends s0 cs))
          = of_nat (sum_list (map framed (zip (fst (store_Appends s0 cs)) cs))))"
proof (intro conjI impI)
  assume a: "store_Append f1 f2 s p = (Inr (n, pos), s')"
  show n: "n = of_nat (8 + length p)" and "pos = store_size s"
    and "store_size s' = store_size s + of_nat (8 + length p)"
    using store_Append_success [OF a] by simp_all
  assume "length p < 2 ^ 63"
  then have "8 + length p < 2 ^ 64" by simp
  then show "unat n = 8 + length p"
    unfolding n by (rule unat_of_nat_len64)
next
  show "store_size (snd (store_Appends s cs))
       = store_size s + of_nat (sum_list (map framed (zip (fst (store_Appends s cs)) cs)))"
    by (rule store_Appends_size)
next
  assume "newStore None [] = Inr s0"
  then have "store_size s0 = 0" by (auto simp: newStore_def)
  then show "store_size (snd (store_Appends s0 cs))
          = of_nat (sum_list (map framed (zip (fst (store_Appends s0 cs)) cs)))"
    using store_Appends_size [of s0 cs] by simp
qed

theorem store_Append_size_accounting_witness:
  "store_Append NoFault NoFault \<lparr>store_buf = [], store_size = 0\<rparr> [1, 2, 3]
     = (Inr (11, 0), snd (store_Append NoFault NoFault \<lparr>store_buf = [], store_size = 0\<rparr> [1, 2, 3]))
   \<and> length [1, 2, 3 :: byte] < 2 ^ 63
   \<and> unat (11 :: uint64) = 8 + length [1, 2, 3 :: byte]
   \<and> store_size (snd (store_Append NoFault NoFault \<lparr>store_buf = [], store_size = 0\<rparr> [1, 2, 3])) = 11
   \<and> newStore None [] = Inr \<lparr>store_buf = [], store_size = 0\<rparr>
   \<and> store_size (snd (store_Appends \<lparr>store_buf = [], store_size = 0\<rparr>
        [(NoFault, NoFault, [1, 2, 3]), (NoFault, ShortWrite 1 (IOError ''disk full''), [4, 5]),
         (NoFault, NoFault, [6])])) = 20"
  using store_Append_size_accounting
    [of NoFault NoFault "\<lparr>store_buf = [], store_size = 0\<rparr>" "[1, 2, 3]" 11 0
        "snd (store_Append NoFault NoFault \<lparr>store_buf = [], store_size = 0\<rparr> [1, 2, 3])"
        "[(NoFault, NoFault, [1, 2, 3]), (NoFault, ShortWrite 1 (IOError ''disk full''), [4, 5]),
         (NoFault, NoFault, [6])]"
        "\<lparr>store_buf = [], store_size = 0\<rparr>"]
  by (simp add: store_Append_def Writer_Write_def lenWidth_def Let_def newStore_def framed_def)

text \<open>
  Claim C6 (a failed \<open>Append\<close> leaves the size alone). If the write of the length
  header or the write of the payload reports an error, \<open>Append\<close> returns an error
  and the size field is what it was before the call, also when the header has
  already gone into the buffer.
\<close>

theorem store_Append_failure_keeps_size:
  assumes "f1 \<noteq> NoFault \<or> f2 \<noteq> NoFault"
  shows "(\<exists>e. fst (store_Append f1 f2 s p) = Inl e)
         \<and> store_size (snd (store_Append f1 f2 s p)) = store_size s"
  using assms
  by (auto simp: store_Append_def Writer_Write_def Let_def split: fault.splits)

theorem store_Append_failure_keeps_size_witness:
  "ShortWrite 1 (IOError ''disk full'') \<noteq> NoFault
   \<and> fst (store_Append NoFault (ShortWrite 1 (IOError ''disk full''))
        \<lparr>store_buf = [], store_size = 19\<rparr> [4, 5]) = Inl (IOError ''disk full'')
   \<and> store_buf (snd (store_Append NoFault (ShortWrite 1 (IOError ''disk full''))
        \<lparr>store_buf = [], store_size = 19\<rparr> [4, 5])) = PutUint64 2 @ [4]
   \<and> store_size (snd (store_Append NoFault (ShortWrite 1 (IOError ''disk full''))
        \<lparr>store_buf = [], store_size = 19\<rparr> [4, 5])) = 19"
  using store_Append_failure_keeps_size
    [of NoFault "ShortWrite 1 (IOError ''disk full'')" "\<lparr>store_buf = [], store_size = 19\<rparr>" "[4, 5]"]
  by (simp add: store_Append_def Writer_Write_def Let_def)

section \<open>Properties of the index\<close>

lemma scast_ucast_small:
  fixes w :: "64 word"
  assumes "unat w < 2 ^ 31"
  shows "(scast (ucast w :: 32 word) :: 64 word) = w"
proof -
  have "int (unat w) < int (2 ^ 31)" using assms by (simp only: of_nat_less_iff)
  then have b: "uint w < 2 ^ 31" by (simp only: uint_nat of_nat_power of_nat_numeral)
  have "sint (ucast w :: 32 word) = signed_take_bit 31 (uint w)"
    by (simp add: signed_ucast_eq)
  also have "\<dots> = uint w"
  proof (rule signed_take_bit_int_eq_self)
    show "- (2 ^ 31) \<le> uint w" by (rule order_trans [of _ 0]) simp_all
    show "uint w < 2 ^ 31" by (rule b)
  qed
  finally show ?thesis by (simp add: scast_eq)
qed

lemma sint_small:
  fixes w :: "64 word"
  assumes "unat w < 2 ^ 31"
  shows "sint w = int (unat w)"
proof -
  have "unat w < 2 ^ 63" using assms by (rule less_trans) simp
  then have "int (unat w) < int (2 ^ 63)" by (simp only: of_nat_less_iff)
  then have b: "uint w < 2 ^ 63" by (simp only: uint_nat of_nat_power of_nat_numeral)
  have "sint w = signed_take_bit 63 (uint w)" by (simp add: sint_uint)
  also have "\<dots> = uint w"
  proof (rule signed_take_bit_int_eq_self)
    show "- (2 ^ 63) \<le> uint w" by (rule order_trans [of _ 0]) simp_all
    show "uint w < 2 ^ 63" by (rule b)
  qed
  finally show ?thesis by (simp only: uint_nat)
qed

lemma entry_offsets:
  fixes rel :: "64 word"
  assumes "unat rel < 2 ^ 31"
  shows "unat (rel * entWidth) = unat rel * 12"
    and "unat (rel * entWidth + offWidth) = unat rel * 12 + 4"
    and "unat (rel * entWidth + entWidth) = unat rel * 12 + 12"
proof -
  have e: "entWidth = 12" "offWidth = 4" by (simp_all add: entWidth_def offWidth_def posWidth_def)
  have "unat rel * unat (12 :: 64 word) < 2 ^ LENGTH(64)" using assms by simp
  then have "unat (rel * 12) = unat rel * unat (12 :: 64 word)"
    by (simp only: unat_mult_lem [THEN iffD1])
  then have m: "unat (rel * 12) = unat rel * 12" by simp
  have "unat (rel * 12) + unat (4 :: 64 word) < 2 ^ LENGTH(64)" using assms m by simp
  then have "unat (rel * 12 + 4) = unat (rel * 12) + unat (4 :: 64 word)"
    by (simp only: unat_add_lem [THEN iffD1])
  then have a4: "unat (rel * 12 + 4) = unat rel * 12 + 4" using m by simp
  have "unat (rel * 12) + unat (12 :: 64 word) < 2 ^ LENGTH(64)" using assms m by simp
  then have "unat (rel * 12 + 12) = unat (rel * 12) + unat (12 :: 64 word)"
    by (simp only: unat_add_lem [THEN iffD1])
  then have a12: "unat (rel * 12 + 12) = unat rel * 12 + 12" using m by simp
  show "unat (rel * entWidth) = unat rel * 12"
    and "unat (rel * entWidth + offWidth) = unat rel * 12 + 4"
    and "unat (rel * entWidth + entWidth) = unat rel * 12 + 12"
    unfolding e using m a4 a12 by blast+
qed


lemma index_Read_body:
  fixes rel :: "64 word"
  assumes "unat rel < 2 ^ 31" and inv: "unat (index_size i) \<le> length (index_mmap i)"
  shows "(if index_size i < rel * entWidth + entWidth then Return (0, 0, Some EOF)
          else
             (case slice (index_mmap i) (rel * entWidth) (rel * entWidth + offWidth) of
                None \<Rightarrow> Panic ''slice bounds out of range''
              | Some a \<Rightarrow>
                  (case slice (index_mmap i) (rel * entWidth + offWidth) (rel * entWidth + entWidth) of
                     None \<Rightarrow> Panic ''slice bounds out of range''
                   | Some b \<Rightarrow> Return (Uint32 a, Uint64 b, None))))
         = Return (if int (unat rel) * 12 + 12 > uint (index_size i) then (0, 0, Some EOF)
                   else decode_entry i (unat rel * 12))"
proof -
  note eo = entry_offsets [OF assms(1)]
  have cn: "index_size i < rel * entWidth + entWidth \<longleftrightarrow> unat (index_size i) < unat rel * 12 + 12"
    unfolding word_less_nat_alt eo ..
  have c: "index_size i < rel * entWidth + entWidth \<longleftrightarrow> int (unat rel) * 12 + 12 > uint (index_size i)"
    unfolding cn uint_nat by linarith
  show ?thesis
  proof (cases "index_size i < rel * entWidth + entWidth")
    case True
    then show ?thesis using c by simp
  next
    case False
    then have "unat rel * 12 + 12 \<le> unat (index_size i)" using cn by simp
    then have fits: "unat rel * 12 + 12 \<le> length (index_mmap i)" using inv by simp
    have s1: "slice (index_mmap i) (rel * entWidth) (rel * entWidth + offWidth)
                = Some (take 4 (drop (unat rel * 12) (index_mmap i)))"
      using fits by (simp add: slice_def eo)
    have s2: "slice (index_mmap i) (rel * entWidth + offWidth) (rel * entWidth + entWidth)
                = Some (take 8 (drop (unat rel * 12 + 4) (index_mmap i)))"
      using fits by (simp add: slice_def eo)
    show ?thesis
      using False c by (simp add: s1 s2 decode_entry_def)
  qed
qed

lemma index_Read_agrees_spec:
  assumes inv: "unat (index_size i) \<le> length (index_mmap i)"
    and rng: "index_size i = 0
           \<or> (inp = - 1 \<and> 12 \<le> unat (index_size i) \<and> unat (index_size i) div 12 \<le> 2 ^ 31)
           \<or> unat inp < 2 ^ 31"
  shows "index_Read i inp = Return (index_Read_spec i (sint inp))"
proof (cases "index_size i = 0")
  case True
  then show ?thesis by (simp add: index_Read_def index_Read_spec_def)
next
  case nz: False
  with rng have "(inp = - 1 \<and> 12 \<le> unat (index_size i) \<and> unat (index_size i) div 12 \<le> 2 ^ 31)
           \<or> unat inp < 2 ^ 31" by simp
  then show ?thesis
  proof
    assume a: "inp = - 1 \<and> 12 \<le> unat (index_size i) \<and> unat (index_size i) div 12 \<le> 2 ^ 31"
    define rel where "rel = index_size i div entWidth - 1"
    have e: "entWidth = 12" by (simp add: entWidth_def offWidth_def posWidth_def)
    have d: "unat (index_size i div entWidth) = unat (index_size i) div 12"
      by (simp add: unat_div e)
    from a have "12 \<le> unat (index_size i)" by simp
    then have d1: "1 \<le> unat (index_size i) div 12" by presburger
    then have "index_size i div entWidth \<noteq> 0" using d by (metis not_one_le_zero unat_0)
    then have r: "unat rel = unat (index_size i) div 12 - 1"
      unfolding rel_def using d by (simp add: unat_minus_one)
    then have small: "unat rel < 2 ^ 31" using a d1 by linarith
    have sc: "(scast (ucast rel :: 32 word) :: 64 word) = rel"
      using small by (rule scast_ucast_small)
    have "int (unat rel) = int (unat (index_size i) div 12) - 1"
      using r d1 by simp
    then have ri: "int (unat rel) = uint (index_size i) div 12 - 1"
      by (simp only: uint_nat zdiv_int of_nat_numeral)
    have "index_Read i inp =
        (if index_size i < rel * entWidth + entWidth then Return (0, 0, Some EOF)
          else
             (case slice (index_mmap i) (rel * entWidth) (rel * entWidth + offWidth) of
                None \<Rightarrow> Panic ''slice bounds out of range''
              | Some a \<Rightarrow>
                  (case slice (index_mmap i) (rel * entWidth + offWidth) (rel * entWidth + entWidth) of
                     None \<Rightarrow> Panic ''slice bounds out of range''
                   | Some b \<Rightarrow> Return (Uint32 a, Uint64 b, None))))"
      using nz a sc by (simp add: index_Read_def Let_def rel_def [symmetric] cong: option.case_cong)
    also have "\<dots> = Return (if int (unat rel) * 12 + 12 > uint (index_size i) then (0, 0, Some EOF)
            else decode_entry i (unat rel * 12))"
      using small inv by (rule index_Read_body)
    also have "\<dots> = Return (index_Read_spec i (sint inp))"
      using nz a by (simp add: index_Read_spec_def Let_def ri [symmetric] nat_mult_distrib)
    finally show ?thesis .
  next
    assume small: "unat inp < 2 ^ 31"
    have "unat inp + unat (1 :: 64 word) < 2 ^ LENGTH(64)" using small by simp
    then have "unat (inp + 1) = unat inp + unat (1 :: 64 word)"
      by (simp only: unat_add_lem [THEN iffD1])
    then have "unat (inp + 1) \<noteq> 0" by simp
    then have ne: "inp \<noteq> - 1" by auto
    have sc: "(scast (ucast inp :: 32 word) :: 64 word) = inp"
      using small by (rule scast_ucast_small)
    have si: "sint inp = int (unat inp)" using small by (rule sint_small)
    have "(0::int) \<le> int (unat inp)" by (rule of_nat_0_le_iff)
    then have ne': "int (unat inp) \<noteq> - 1" by linarith
    have "index_Read i inp =
        (if index_size i < inp * entWidth + entWidth then Return (0, 0, Some EOF)
          else
             (case slice (index_mmap i) (inp * entWidth) (inp * entWidth + offWidth) of
                None \<Rightarrow> Panic ''slice bounds out of range''
              | Some a \<Rightarrow>
                  (case slice (index_mmap i) (inp * entWidth + offWidth) (inp * entWidth + entWidth) of
                     None \<Rightarrow> Panic ''slice bounds out of range''
                   | Some b \<Rightarrow> Return (Uint32 a, Uint64 b, None))))"
      using nz ne sc by (simp add: index_Read_def Let_def cong: option.case_cong)
    also have "\<dots> = Return (if int (unat inp) * 12 + 12 > uint (index_size i) then (0, 0, Some EOF)
            else decode_entry i (unat inp * 12))"
      using small inv by (rule index_Read_body)
    also have "\<dots> = Return (index_Read_spec i (sint inp))"
      unfolding si using nz ne' by (simp add: index_Read_spec_def Let_def nat_mult_distrib)
    finally show ?thesis .
  qed
qed

text \<open>
  Where \<open>size\<close> exceeds the length of the mapping, \<open>Read\<close> of an entry that lies within
  \<open>size\<close> but past the mapping panics on the slice expression.
\<close>

lemma index_Read_past_mapping:
  "index_Read oversized_index 1 = Panic ''slice bounds out of range''"
  by (simp add: index_Read_def oversized_index_def entWidth_def offWidth_def posWidth_def
        slice_def Let_def)

text \<open>
  Claim C7, as amended. On an index whose \<open>size\<close> does not exceed the length of its
  mapping, \<open>index.Read(in)\<close> returns without panic and behaves as the claim says (an
  empty index gives \<open>(0, 0, nil)\<close>; the relative offset is \<open>size / entryWidth - 1\<close> for
  \<open>-1\<close> and \<open>in\<close> otherwise; end-of-data when the byte position plus one entry width
  exceeds \<open>size\<close>; the entry decoded otherwise) in each of these cases: the index is
  empty, for every \<open>in\<close>; \<open>in = -1\<close> and the index holds at least one whole entry and at
  most \<open>2^31\<close> entries; \<open>0 \<le> in < 2^31\<close>.
\<close>

theorem index_Read_in_range:
  assumes "unat (index_size i) \<le> length (index_mmap i)"
    and "index_size i = 0
           \<or> (inp = - 1 \<and> 12 \<le> unat (index_size i) \<and> unat (index_size i) div 12 \<le> 2 ^ 31)
           \<or> unat inp < 2 ^ 31"
  shows "index_Read i inp = Return (index_Read_spec i (sint inp))"
  using assms by (rule index_Read_agrees_spec)

theorem index_Read_in_range_witness:
  "unat (index_size example_index) \<le> length (index_mmap example_index)
   \<and> unat (1 :: 64 word) < 2 ^ 31
   \<and> index_Read example_index 1 = Return (index_Read_spec example_index (sint (1 :: 64 word)))
   \<and> index_Read example_index 1 = Return (1, 19, None)
   \<and> index_Read example_index 2 = Return (0, 0, Some EOF)
   \<and> index_Read example_index (- 1) = Return (index_Read_spec example_index (sint (- 1 :: 64 word)))
   \<and> index_Read example_index (- 1) = Return (1, 19, None)
   \<and> index_size (example_index\<lparr> index_size := 0 \<rparr>) = 0
   \<and> index_Read (example_index\<lparr> index_size := 0 \<rparr>) (- 1) = Return (0, 0, None)"
  using index_Read_in_range [of example_index 1]
    index_Read_in_range [of example_index 2]
    index_Read_in_range [of example_index "- 1"]
    index_Read_in_range [of "example_index\<lparr> index_size := 0 \<rparr>" "- 1"]
  by (simp add: index_Read_def example_index_def entWidth_def offWidth_def posWidth_def
        slice_def Uint32_def Uint64_def be_word_def Let_def)

text \<open>
  The claim as stated, for every \<open>in\<close>, fails: on the example index, which holds two
  entries within its mapping, \<open>Read(2^32 + 1)\<close> returns the entry at relative offset 1,
  where the claim has the relative offset \<open>2^32 + 1\<close>, far past the end, and so
  end-of-data.
\<close>

theorem index_Read_truncates_counterexample:
  "unat (index_size example_index) \<le> length (index_mmap example_index)
   \<and> index_Read example_index 4294967297 = Return (1, 19, None)
   \<and> index_Read_spec example_index (sint (4294967297 :: 64 word)) = (0, 0, Some EOF)"
  by (simp add: index_Read_def index_Read_spec_def example_index_def entWidth_def offWidth_def
        posWidth_def slice_def Uint32_def Uint64_def be_word_def Let_def)

lemma rev_upt_4: "rev [0..<4] = [3, 2, 1, 0 :: nat]"
  by code_simp

lemma PutUint32_bytes:
  "PutUint32 w = [ucast (drop_bit 24 w), ucast (drop_bit 16 w), ucast (drop_bit 8 w), ucast w]"
  by (simp add: PutUint32_def be_bytes_def rev_upt_4)

lemma Uint32_PutUint32: "Uint32 (PutUint32 w) = w"
proof -
  have "Uint32 (PutUint32 w) =
     push_bit 8 (push_bit 8 (push_bit 8 (ucast (ucast (drop_bit 24 w) :: byte))
        OR ucast (ucast (drop_bit 16 w) :: byte)) OR ucast (ucast (drop_bit 8 w) :: byte))
        OR ucast (ucast w :: byte)"
    unfolding PutUint32_bytes Uint32_def be_word_def by simp
  also have "\<dots> = w"
  proof (rule bit_word_eqI)
    fix n assume "n < LENGTH(32)"
    then have n: "n < 32" by simp
    consider "n < 8" | "8 \<le> n" "n < 16" | "16 \<le> n" "n < 24" | "24 \<le> n" "n < 32"
      using n by linarith
    then show "bit (push_bit 8 (push_bit 8 (push_bit 8 (ucast (ucast (drop_bit 24 w) :: byte))
        OR ucast (ucast (drop_bit 16 w) :: byte)) OR ucast (ucast (drop_bit 8 w) :: byte))
        OR ucast (ucast w :: byte) :: 32 word) n = bit w n"
      by cases (auto simp add: bit_simps)
  qed
  finally show ?thesis .
qed


lemma rev_upt_8: "rev [0..<8] = [7, 6, 5, 4, 3, 2, 1, 0 :: nat]"
  by code_simp

lemma PutUint64_bytes:
  "PutUint64 w = [ucast (drop_bit 56 w), ucast (drop_bit 48 w), ucast (drop_bit 40 w),
     ucast (drop_bit 32 w), ucast (drop_bit 24 w), ucast (drop_bit 16 w), ucast (drop_bit 8 w), ucast w]"
  by (simp add: PutUint64_def be_bytes_def rev_upt_8)

lemma length_PutUint32: "length (PutUint32 w) = 4"
  by (simp add: PutUint32_bytes)

lemma length_PutUint64: "length (PutUint64 w) = 8"
  by (simp add: PutUint64_bytes)

lemma index_Write_offsets:
  fixes sz :: uint64
  assumes "unat sz + 12 < 2 ^ 64"
  shows "unat (sz + offWidth) = unat sz + 4" and "unat (sz + entWidth) = unat sz + 12"
proof -
  have "unat sz + unat (4 :: 64 word) < 2 ^ LENGTH(64)" using assms by simp
  then have "unat (sz + 4) = unat sz + unat (4 :: 64 word)"
    by (simp only: unat_add_lem [THEN iffD1])
  then show "unat (sz + offWidth) = unat sz + 4" by (simp add: offWidth_def)
  have "unat sz + unat (12 :: 64 word) < 2 ^ LENGTH(64)" using assms by simp
  then have "unat (sz + 12) = unat sz + unat (12 :: 64 word)"
    by (simp only: unat_add_lem [THEN iffD1])
  then show "unat (sz + entWidth) = unat sz + 12"
    by (simp add: entWidth_def offWidth_def posWidth_def)
qed

lemma index_Write_full:
  assumes "length (index_mmap i) < 2 ^ 64" and "unat (index_size i) + 12 < 2 ^ 64"
  shows "index_Write i off pos =
     (if length (index_mmap i) < unat (index_size i) + 12 then (Return (Some EOF), i)
      else (Return None,
            i\<lparr> index_mmap := take (unat (index_size i)) (index_mmap i) @ PutUint32 off @ PutUint64 pos
                     @ drop (unat (index_size i) + 12) (index_mmap i),
               index_size := index_size i + entWidth \<rparr>))"
proof -
  note o = index_Write_offsets [OF assms(2)]
  have l: "unat (of_nat (length (index_mmap i)) :: uint64) = length (index_mmap i)"
    using assms(1) by (rule unat_of_nat_len64)
  have c: "(of_nat (length (index_mmap i)) :: uint64) < index_size i + entWidth
             \<longleftrightarrow> length (index_mmap i) < unat (index_size i) + 12"
    unfolding word_less_nat_alt l o ..
  show ?thesis
  proof (cases "length (index_mmap i) < unat (index_size i) + 12")
    case True
    then show ?thesis by (simp add: index_Write_def c)
  next
    case False
    then have fits: "unat (index_size i) + 12 \<le> length (index_mmap i)" by simp
    have s1: "slice (index_mmap i) (index_size i) (index_size i + offWidth)
                = Some (take 4 (drop (unat (index_size i)) (index_mmap i)))"
      using fits by (simp add: slice_def o)
    let ?m1 = "write_at (index_mmap i) (unat (index_size i)) (PutUint32 off)"
    have m1: "?m1 = take (unat (index_size i)) (index_mmap i) @ PutUint32 off
                 @ drop (unat (index_size i) + 4) (index_mmap i)"
      by (simp add: write_at_def length_PutUint32)
    have lm1: "length ?m1 = length (index_mmap i)"
      using fits by (simp add: m1 length_PutUint32)
    have s2: "slice ?m1 (index_size i + offWidth) (index_size i + entWidth)
                = Some (take 8 (drop (unat (index_size i) + 4) ?m1))"
      using fits by (simp add: slice_def o lm1)
    have lenA: "length (take (unat (index_size i)) (index_mmap i)) = unat (index_size i)"
      using fits by simp
    have t: "take (unat (index_size i) + 4) ?m1
               = take (unat (index_size i)) (index_mmap i) @ PutUint32 off"
      unfolding m1 using fits by (simp add: lenA length_PutUint32)
    have "drop (unat (index_size i) + 12) ?m1
            = drop 8 (drop (unat (index_size i) + 4) (index_mmap i))"
      unfolding m1 using fits by (simp add: lenA length_PutUint32)
    also have "\<dots> = drop (unat (index_size i) + 12) (index_mmap i)"
      by (simp add: add.commute)
    finally have d: "drop (unat (index_size i) + 12) ?m1
            = drop (unat (index_size i) + 12) (index_mmap i)" .
    have "write_at ?m1 (unat (index_size i + offWidth)) (PutUint64 pos)
        = take (unat (index_size i) + 4) ?m1 @ PutUint64 pos @ drop (unat (index_size i) + 12) ?m1"
      unfolding o write_at_def [of ?m1] by (simp add: length_PutUint64 add.assoc)
    then have m2: "write_at ?m1 (unat (index_size i + offWidth)) (PutUint64 pos)
        = take (unat (index_size i)) (index_mmap i) @ PutUint32 off @ PutUint64 pos
            @ drop (unat (index_size i) + 12) (index_mmap i)"
      by (simp only: t d append_assoc)
    show ?thesis
      using False by (simp add: index_Write_def c s1 s2 m2 Let_def del: One_nat_def)
  qed
qed

lemma Uint64_PutUint64: "Uint64 (PutUint64 w) = w"
proof -
  have "Uint64 (PutUint64 w) =
     push_bit 8 (push_bit 8 (push_bit 8 (push_bit 8 (push_bit 8 (push_bit 8 (push_bit 8
        (ucast (ucast (drop_bit 56 w) :: byte))
        OR ucast (ucast (drop_bit 48 w) :: byte)) OR ucast (ucast (drop_bit 40 w) :: byte))
        OR ucast (ucast (drop_bit 32 w) :: byte)) OR ucast (ucast (drop_bit 24 w) :: byte))
        OR ucast (ucast (drop_bit 16 w) :: byte)) OR ucast (ucast (drop_bit 8 w) :: byte))
        OR ucast (ucast w :: byte)"
    unfolding PutUint64_bytes Uint64_def be_word_def by simp
  also have "\<dots> = w"
  proof (rule bit_word_eqI)
    fix n assume "n < LENGTH(64)"
    then have n: "n < 64" by simp
    consider "n < 8" | "8 \<le> n" "n < 16" | "16 \<le> n" "n < 24" | "24 \<le> n" "n < 32"
      | "32 \<le> n" "n < 40" | "40 \<le> n" "n < 48" | "48 \<le> n" "n < 56" | "56 \<le> n" "n < 64"
      using n by linarith
    then show "bit (push_bit 8 (push_bit 8 (push_bit 8 (push_bit 8 (push_bit 8 (push_bit 8 (push_bit 8
        (ucast (ucast (drop_bit 56 w) :: byte))
        OR ucast (ucast (drop_bit 48 w) :: byte)) OR ucast (ucast (drop_bit 40 w) :: byte))
        OR ucast (ucast (drop_bit 32 w) :: byte)) OR ucast (ucast (drop_bit 24 w) :: byte))
        OR ucast (ucast (drop_bit 16 w) :: byte)) OR ucast (ucast (drop_bit 8 w) :: byte))
        OR ucast (ucast w :: byte) :: 64 word) n = bit w n"
      by cases (auto simp add: bit_simps)
  qed
  finally show ?thesis .
qed

text \<open>
  Claim C8 (\<open>index.Write\<close>). For every relative offset and store position, \<open>Write\<close>
  returns end-of-data exactly when \<open>size + entryWidth\<close> exceeds the length of the
  mapping, and then leaves the index as it was; otherwise it returns \<open>nil\<close>, the twelve
  bytes at position \<open>size\<close> become the big-endian entry, \<open>size\<close> grows by exactly one
  entry width, and every byte before the old \<open>size\<close> (the entries written earlier) and
  after the new entry is unchanged. The two bounds say that the length of the mapping
  and \<open>size + entryWidth\<close> are 64-bit values, as a Go slice length and the file size
  \<open>size\<close> starts from are.
\<close>

theorem index_Write_behaviour:
  assumes "length (index_mmap i) < 2 ^ 64" and "unat (index_size i) + 12 < 2 ^ 64"
  shows "(fst (index_Write i off pos) = Return (Some EOF)
            \<longleftrightarrow> length (index_mmap i) < unat (index_size i) + 12)
       \<and> (length (index_mmap i) < unat (index_size i) + 12 \<longrightarrow> snd (index_Write i off pos) = i)
       \<and> (unat (index_size i) + 12 \<le> length (index_mmap i) \<longrightarrow>
            (\<exists>i'. index_Write i off pos = (Return None, i')
               \<and> index_size i' = index_size i + entWidth
               \<and> unat (index_size i') = unat (index_size i) + 12
               \<and> length (index_mmap i') = length (index_mmap i)
               \<and> take 12 (drop (unat (index_size i)) (index_mmap i')) = PutUint32 off @ PutUint64 pos
               \<and> take (unat (index_size i)) (index_mmap i') = take (unat (index_size i)) (index_mmap i)
               \<and> drop (unat (index_size i) + 12) (index_mmap i')
                    = drop (unat (index_size i) + 12) (index_mmap i)))"
proof -
  note w = index_Write_full [OF assms, of off pos]
  note o = index_Write_offsets [OF assms(2)]
  have 1: "fst (index_Write i off pos) = Return (Some EOF)
            \<longleftrightarrow> length (index_mmap i) < unat (index_size i) + 12"
    by (simp add: w)
  have 2: "length (index_mmap i) < unat (index_size i) + 12 \<longrightarrow> snd (index_Write i off pos) = i"
    by (simp add: w)
  have 3: "unat (index_size i) + 12 \<le> length (index_mmap i) \<longrightarrow>
            (\<exists>i'. index_Write i off pos = (Return None, i')
               \<and> index_size i' = index_size i + entWidth
               \<and> unat (index_size i') = unat (index_size i) + 12
               \<and> length (index_mmap i') = length (index_mmap i)
               \<and> take 12 (drop (unat (index_size i)) (index_mmap i')) = PutUint32 off @ PutUint64 pos
               \<and> take (unat (index_size i)) (index_mmap i') = take (unat (index_size i)) (index_mmap i)
               \<and> drop (unat (index_size i) + 12) (index_mmap i')
                    = drop (unat (index_size i) + 12) (index_mmap i))"
  proof
    assume fits: "unat (index_size i) + 12 \<le> length (index_mmap i)"
    let ?n = "unat (index_size i)"
    let ?m' = "take ?n (index_mmap i) @ PutUint32 off @ PutUint64 pos @ drop (?n + 12) (index_mmap i)"
    have lenA: "length (take ?n (index_mmap i)) = ?n" using fits by simp
    have a: "index_Write i off pos
           = (Return None, i\<lparr> index_mmap := ?m', index_size := index_size i + entWidth \<rparr>)"
      using fits by (simp add: w)
    have b: "length ?m' = length (index_mmap i)"
      using fits by (simp add: length_PutUint32 length_PutUint64)
    have c: "take 12 (drop ?n ?m') = PutUint32 off @ PutUint64 pos"
      using lenA by (simp add: length_PutUint32 length_PutUint64)
    have d: "take ?n ?m' = take ?n (index_mmap i)"
      using lenA by simp
    have e: "drop (?n + 12) ?m' = drop (?n + 12) (index_mmap i)"
      using lenA by (simp add: length_PutUint32 length_PutUint64)
    show "\<exists>i'. index_Write i off pos = (Return None, i')
               \<and> index_size i' = index_size i + entWidth
               \<and> unat (index_size i') = unat (index_size i) + 12
               \<and> length (index_mmap i') = length (index_mmap i)
               \<and> take 12 (drop (unat (index_size i)) (index_mmap i')) = PutUint32 off @ PutUint64 pos
               \<and> take (unat (index_size i)) (index_mmap i') = take (unat (index_size i)) (index_mmap i)
               \<and> drop (unat (index_size i) + 12) (index_mmap i')
                    = drop (unat (index_size i) + 12) (index_mmap i)"
      using a b c d e o(2) by simp
  qed
  from 1 2 3 show ?thesis by blast
qed

theorem index_Write_behaviour_witness:
  "length (index_mmap example_index) < 2 ^ 64
   \<and> unat (index_size example_index) + 12 < 2 ^ 64
   \<and> unat (index_size example_index) + 12 \<le> length (index_mmap example_index)
   \<and> fst (index_Write example_index 2 38) = Return None
   \<and> index_size (snd (index_Write example_index 2 38)) = 36
   \<and> index_mmap (snd (index_Write example_index 2 38)) =
        [0, 0, 0, 0,  0, 0, 0, 0, 0, 0, 0, 0,
         0, 0, 0, 1,  0, 0, 0, 0, 0, 0, 0, 19,
         0, 0, 0, 2,  0, 0, 0, 0, 0, 0, 0, 38]
   \<and> fst (index_Write (snd (index_Write example_index 2 38)) 3 57) = Return (Some EOF)"
  using index_Write_behaviour [of example_index 2 38]
    index_Write_behaviour [of "snd (index_Write example_index 2 38)" 3 57]
  by (simp add: index_Write_def example_index_def entWidth_def offWidth_def posWidth_def
        slice_def write_at_def PutUint32_bytes PutUint64_bytes Let_def)

text \<open>
  The entry that \<open>Write\<close> puts at the end of an index of \<open>k\<close> whole entries is the one
  \<open>Read(k)\<close> decodes afterwards.
\<close>

lemma index_Write_then_Read:
  assumes len: "length (index_mmap i) < 2 ^ 64"
    and al: "unat (index_size i) = 12 * k" and k: "k < 2 ^ 31"
    and fits: "12 * k + 12 \<le> length (index_mmap i)"
  shows "index_Read (snd (index_Write i off pos)) (of_nat k) = Return (off, pos, None)"
proof -
  let ?n = "unat (index_size i)"
  define m' where "m' = take ?n (index_mmap i) @ PutUint32 off @ PutUint64 pos
                          @ drop (?n + 12) (index_mmap i)"
  let ?i' = "i\<lparr> index_mmap := m', index_size := index_size i + entWidth \<rparr>"
  have nw: "?n + 12 < 2 ^ 64" using al k by simp
  have w: "snd (index_Write i off pos) = ?i'"
    using fits al by (simp add: index_Write_full [OF len nw] m'_def)
  have sz: "unat (index_size ?i') = 12 * k + 12"
    using index_Write_offsets(2) [OF nw] al by simp
  then have nz: "index_size ?i' \<noteq> 0" by (metis add_is_0 unat_0 zero_neq_numeral)
  have usz: "uint (index_size ?i') = int (12 * k + 12)"
    using sz by (simp only: uint_nat)
  have kk: "k < 2 ^ 64" using k by (rule less_trans) simp
  have uk: "unat (of_nat k :: 64 word) = k" using kk by (rule unat_of_nat_len64)
  have small: "unat (of_nat k :: 64 word) < 2 ^ 31" using k by (simp only: uk)
  have si: "sint (of_nat k :: 64 word) = int k"
    using sint_small [OF small] by (simp only: uk)
  have lenA: "length (take ?n (index_mmap i)) = 12 * k" using fits al by simp
  have lm: "length m' = length (index_mmap i)"
    unfolding m'_def using fits al by (simp add: length_PutUint32 length_PutUint64)
  have d0: "drop (12 * k) m' = PutUint32 off @ PutUint64 pos @ drop (?n + 12) (index_mmap i)"
    unfolding m'_def using lenA by simp
  have d4: "drop (12 * k + 4) m' = PutUint64 pos @ drop (?n + 12) (index_mmap i)"
    unfolding m'_def using lenA by (simp add: length_PutUint32)
  have t4: "take 4 (drop (12 * k) m') = PutUint32 off"
    unfolding d0 by (simp add: length_PutUint32)
  have t8: "take 8 (drop (12 * k + 4) m') = PutUint64 pos"
    unfolding d4 by (simp add: length_PutUint64)
  have e: "decode_entry ?i' (12 * k) = (off, pos, None)"
    by (simp add: decode_entry_def t4 t8 Uint32_PutUint32 Uint64_PutUint64)
  have inv: "unat (index_size ?i') \<le> length (index_mmap ?i')"
    using fits by (simp only: sz) (simp add: lm)
  have "index_Read ?i' (of_nat k) = Return (index_Read_spec ?i' (sint (of_nat k :: 64 word)))"
    using inv small by (intro index_Read_agrees_spec) simp_all
  also have "index_Read_spec ?i' (sint (of_nat k :: 64 word)) = decode_entry ?i' (12 * k)"
    unfolding si index_Read_spec_def Let_def usz using nz
    by (simp add: nat_mult_distrib mult.commute)
  finally show ?thesis by (simp only: w e)
qed

section \<open>Properties of the replicated log's apply path\<close>

lemma DistributedLog_Append_swallows:
  "DistributedLog_apply m fut = Inl e \<Longrightarrow> DistributedLog_Append m fut = Return (0, None)"
  by (simp add: DistributedLog_Append_def)

text \<open>
  When the command is applied, the response is the \<open>*api.ProduceResponse\<close> of
  \<open>fsm.applyAppend\<close>, and the assertion \<open>res.(*AppendResponse)\<close> in \<open>Append\<close> does not
  hold of it.
\<close>

lemma DistributedLog_Append_applied:
  "DistributedLog_Append None (FutureResponse (fsm_applyAppend None (Inr offset)))
     = Panic ''interface conversion: interface {} is not *log.AppendResponse''"
  by (simp add: DistributedLog_Append_def DistributedLog_apply_def fsm_applyAppend_def)

text \<open>
  Claim C1 (the apply path propagates its error). The claim is that \<open>Append\<close> returns
  the error of a failed apply to its caller. The code does not: with the future of
  \<open>raft.Apply\<close> failing on a node that is not the leader, and likewise with the FSM
  answering with an error, \<open>apply\<close> returns the error, and \<open>Append\<close> returns offset 0
  with a \<open>nil\<close> error, which is what a successful first append looks like.
\<close>

theorem DistributedLog_Append_drops_error:
  "DistributedLog_apply None (FutureError ErrNotLeader) = Inl ErrNotLeader
   \<and> DistributedLog_Append None (FutureError ErrNotLeader) = Return (0, None)
   \<and> DistributedLog_apply None (FutureResponse (ErrorResponse (IOError ''disk full'')))
        = Inl (IOError ''disk full'')
   \<and> DistributedLog_Append None (FutureResponse (ErrorResponse (IOError ''disk full'')))
        = Return (0, None)"
  by (simp add: DistributedLog_Append_def DistributedLog_apply_def)

section \<open>Properties of the RPC server\<close>

lemma ConsumeStream_returns_every_error:
  assumes "\<not> ctx_done env k" and "CommitLog_Read env k off = Inl err"
  shows "grpcServer_ConsumeStream (Suc fuel) env k off sent = Some (Some err, off, sent)"
  using assms by (cases err) (simp_all add: grpcServer_Consume_def)

lemma ConsumeStream_cancelled:
  "ctx_done env k \<Longrightarrow> grpcServer_ConsumeStream (Suc fuel) env k off sent = Some (None, off, sent)"
  by simp

lemma ConsumeStream_sends_and_increments:
  assumes "\<not> ctx_done env k" and "CommitLog_Read env k off = Inr record"
    and "stream_Send env k record = None"
  shows "grpcServer_ConsumeStream (Suc fuel) env k off sent
           = grpcServer_ConsumeStream fuel env (Suc k) (off + 1) (sent @ [record])"
  using assms by (simp add: grpcServer_Consume_def)

text \<open>
  Claim C2 (\<open>ConsumeStream\<close> waits on an offset that is not written yet). The claim is
  that on \<open>OffsetOutOfRange\<close> the handler retries the same offset until the client
  cancels. The code does not: the case of its type switch names the struct type, while
  the error that arrives is a pointer to it, so the error falls to the default case.
  On a log without records, with a client that never cancels, the stream started at
  offset 0 ends in its first iteration, returning the out-of-range error, with nothing
  sent.
\<close>

theorem ConsumeStream_ends_on_out_of_range:
  "grpcServer_ConsumeStream (Suc fuel) empty_log_env 0 0 []
     = Some (Some (PtrErrorOffsetOutOfRange 0), 0, [])"
  by (simp add: empty_log_env_def grpcServer_Consume_def)

section \<open>Properties of the replicator\<close>

lemma init_initialised:
  "logger (Replicator_init r) \<noteq> None \<and> servers (Replicator_init r) \<noteq> None
   \<and> close (Replicator_init r) \<noteq> None"
  by (simp add: Replicator_init_def Let_def)

lemma init_idem:
  "logger r \<noteq> None \<Longrightarrow> servers r \<noteq> None \<Longrightarrow> close r \<noteq> None \<Longrightarrow> Replicator_init r = r"
  by (simp add: Replicator_init_def Let_def)

lemma init_keeps:
  "closed (Replicator_init r) = closed r"
  "goroutines (Replicator_init r) = goroutines r"
  "task_map (Replicator_init r) = task_map r"
  "take (length (chans r)) (chans (Replicator_init r)) = chans r"
  by (simp_all add: Replicator_init_def Let_def task_map_def)


lemma init_servers_Some:
  "servers r = Some m \<Longrightarrow> servers (Replicator_init r) = Some m"
  by (simp add: Replicator_init_def Let_def)

lemma Join_noop:
  assumes "task_map r name \<noteq> None \<or> closed r"
  shows "Replicator_Join name addrs r = (Return None, Replicator_init r)"
proof (cases "closed r")
  case True
  then show ?thesis by (simp add: Replicator_Join_def Let_def init_keeps)
next
  case False
  with assms obtain m c where m: "servers r = Some m" "m name = Some c"
    by (auto simp: task_map_def split: option.splits)
  show ?thesis
    using False by (simp add: Replicator_Join_def Let_def init_keeps init_servers_Some [OF m(1)] m(2))
qed

lemma Close_noop:
  assumes "closed r"
  shows "Replicator_Close r = (Return None, Replicator_init r)"
  using assms by (simp add: Replicator_Close_def Let_def init_keeps)

lemma Join_result:
  "logger (snd (Replicator_Join name addrs r)) \<noteq> None"
  "servers (snd (Replicator_Join name addrs r)) \<noteq> None"
  "close (snd (Replicator_Join name addrs r)) \<noteq> None"
  "task_map (snd (Replicator_Join name addrs r)) name \<noteq> None
     \<or> closed (snd (Replicator_Join name addrs r))"
  using init_initialised [of r]
  by (auto simp: Replicator_Join_def Let_def task_map_def split: option.splits)

lemma Close_result:
  assumes "fst (Replicator_Close r) = Return None"
  shows "logger (snd (Replicator_Close r)) \<noteq> None"
    "servers (snd (Replicator_Close r)) \<noteq> None"
    "close (snd (Replicator_Close r)) \<noteq> None"
    "closed (snd (Replicator_Close r))"
  using init_initialised [of r] assms
  by (auto simp: Replicator_Close_def Let_def split: option.splits if_splits)


text \<open>
  Claim C10 (\<open>Replicator.Join\<close> is idempotent and safe after \<open>Close\<close>). For every peer
  name: \<open>Join(name, addr)\<close> on a replicator that already has a task for \<open>name\<close>, or
  that is closed, returns \<open>nil\<close>, leaves the task map as it is and starts no
  goroutine; \<open>Close\<close> on a closed replicator returns \<open>nil\<close> and closes no channel.
  In particular a \<open>Join\<close> right after a \<open>Join\<close> of the same name, and a \<open>Join\<close> or a
  \<open>Close\<close> right after a \<open>Close\<close>, return \<open>nil\<close> and change nothing at all.
\<close>

theorem Replicator_Join_Close_idempotent:
  "((task_map r name \<noteq> None \<or> closed r) \<longrightarrow>
      fst (Replicator_Join name addrs r) = Return None
      \<and> task_map (snd (Replicator_Join name addrs r)) = task_map r
      \<and> goroutines (snd (Replicator_Join name addrs r)) = goroutines r
      \<and> closed (snd (Replicator_Join name addrs r)) = closed r)
   \<and> (closed r \<longrightarrow>
      fst (Replicator_Close r) = Return None
      \<and> closed (snd (Replicator_Close r))
      \<and> task_map (snd (Replicator_Close r)) = task_map r
      \<and> goroutines (snd (Replicator_Close r)) = goroutines r
      \<and> take (length (chans r)) (chans (snd (Replicator_Close r))) = chans r)
   \<and> Replicator_Join name addrs' (snd (Replicator_Join name addrs r))
        = (Return None, snd (Replicator_Join name addrs r))
   \<and> (fst (Replicator_Close r) = Return None \<longrightarrow>
        Replicator_Join name addrs (snd (Replicator_Close r)) = (Return None, snd (Replicator_Close r))
        \<and> Replicator_Close (snd (Replicator_Close r)) = (Return None, snd (Replicator_Close r)))"
proof (intro conjI impI)
  assume a: "task_map r name \<noteq> None \<or> closed r"
  note j = Join_noop [OF a, of addrs]
  show "fst (Replicator_Join name addrs r) = Return None" by (simp add: j)
  show "task_map (snd (Replicator_Join name addrs r)) = task_map r" by (simp add: j init_keeps)
  show "goroutines (snd (Replicator_Join name addrs r)) = goroutines r" by (simp add: j init_keeps)
  show "closed (snd (Replicator_Join name addrs r)) = closed r" by (simp add: j init_keeps)
next
  assume c: "closed r"
  note k = Close_noop [OF c]
  show "fst (Replicator_Close r) = Return None" by (simp add: k)
  show "closed (snd (Replicator_Close r))" using c by (simp add: k init_keeps)
  show "task_map (snd (Replicator_Close r)) = task_map r" by (simp add: k init_keeps)
  show "goroutines (snd (Replicator_Close r)) = goroutines r" by (simp add: k init_keeps)
  show "take (length (chans r)) (chans (snd (Replicator_Close r))) = chans r"
    by (simp add: k init_keeps)
next
  let ?r = "snd (Replicator_Join name addrs r)"
  have "Replicator_Join name addrs' ?r = (Return None, Replicator_init ?r)"
    using Join_result(4) [of name addrs r] by (rule Join_noop)
  moreover have "Replicator_init ?r = ?r"
    using Join_result(1-3) [of name addrs r] by (rule init_idem)
  ultimately show "Replicator_Join name addrs' ?r = (Return None, ?r)" by simp
next
  assume ok: "fst (Replicator_Close r) = Return None"
  let ?r = "snd (Replicator_Close r)"
  note cr = Close_result [OF ok]
  have i: "Replicator_init ?r = ?r" using cr(1-3) by (rule init_idem)
  have "closed ?r" by (rule cr(4))
  then have "task_map ?r name \<noteq> None \<or> closed ?r" ..
  then have "Replicator_Join name addrs ?r = (Return None, Replicator_init ?r)" by (rule Join_noop)
  then show "Replicator_Join name addrs ?r = (Return None, ?r)" by (simp only: i)
  have "Replicator_Close ?r = (Return None, Replicator_init ?r)" using cr(4) by (rule Close_noop)
  then show "Replicator_Close ?r = (Return None, ?r)" by (simp only: i)
qed

lemma example_Replicators:
  "snd (Replicator_Join ''1'' ''10.0.0.2:8401'' zero_Replicator) = joined_Replicator"
  "Replicator_Close zero_Replicator = (Return None, closed_Replicator)"
  by (simp_all add: Replicator_Join_def Replicator_Close_def Replicator_init_def
        zero_Replicator_def joined_Replicator_def closed_Replicator_def Let_def)

theorem Replicator_Join_Close_idempotent_witness:
  "task_map joined_Replicator ''1'' = Some 1
   \<and> Replicator_Join ''1'' ''10.0.0.9:8401'' joined_Replicator = (Return None, joined_Replicator)
   \<and> goroutines (snd (Replicator_Join ''1'' ''10.0.0.9:8401'' joined_Replicator))
        = [(''10.0.0.2:8401'', 1)]
   \<and> closed closed_Replicator
   \<and> Replicator_Join ''2'' ''10.0.0.3:8401'' closed_Replicator = (Return None, closed_Replicator)
   \<and> fst (Replicator_Close zero_Replicator) = Return None
   \<and> Replicator_Close (snd (Replicator_Close zero_Replicator))
        = (Return None, snd (Replicator_Close zero_Replicator))
   \<and> Replicator_Close closed_Replicator = (Return None, closed_Replicator)"
  using Replicator_Join_Close_idempotent
      [where r = joined_Replicator and name = "''1''" and addrs = "''10.0.0.9:8401''"]
    Replicator_Join_Close_idempotent
      [where r = closed_Replicator and name = "''2''" and addrs = "''10.0.0.3:8401''"]
    Replicator_Join_Close_idempotent
      [where r = zero_Replicator and name = "''2''" and addrs = "''10.0.0.3:8401''"]
  by (simp add: Replicator_Join_def Replicator_Close_def Replicator_init_def task_map_def
        zero_Replicator_def joined_Replicator_def closed_Replicator_def Let_def)

section \<open>Properties of the replicated log's membership\<close>

lemma Join_loop_exact:
  assumes "\<forall>s\<in>set pre. ID s \<noteq> sid \<and> Address s \<noteq> addr"
    and "ID s0 = sid" and "Address s0 = addr"
  shows "Join_loop answer sid addr (pre @ s0 # post) tr = (Some None, tr)"
  using assms by (induction pre) simp_all

lemma Join_loop_requests:
  assumes "\<forall>s\<in>set srvs. \<not> (ID s = sid \<and> Address s = addr)"
  shows "Join_loop answer sid addr srvs tr =
     (case make_requests answer tr
             (map (\<lambda>s. RemoveServer (ID s)) (filter (\<lambda>s. ID s = sid \<or> Address s = addr) srvs)) of
        (Some err, tr') \<Rightarrow> (Some (Some err), tr')
      | (None, tr') \<Rightarrow> (None, tr'))"
  using assms
proof (induction srvs arbitrary: tr)
  case Nil
  then show ?case by simp
next
  case (Cons srv srvs)
  then have nx: "\<forall>s\<in>set srvs. \<not> (ID s = sid \<and> Address s = addr)"
    and nb: "\<not> (ID srv = sid \<and> Address srv = addr)" by simp_all
  show ?case
  proof (cases "ID srv = sid \<or> Address srv = addr")
    case False
    then show ?thesis using Cons.IH [OF nx] by simp
  next
    case True
    show ?thesis
    proof (cases "answer tr (RemoveServer (ID srv))")
      case None
      then show ?thesis using True nb Cons.IH [OF nx] by auto
    next
      case (Some err)
      then show ?thesis using True nb by auto
    qed
  qed
qed

lemma make_requests_snoc:
  "make_requests answer tr (qs @ [q]) =
     (case make_requests answer tr qs of
        (Some err, tr') \<Rightarrow> (Some err, tr')
      | (None, tr') \<Rightarrow> (answer tr' q, tr' @ [(q, answer tr' q)]))"
proof (induction qs arbitrary: tr)
  case Nil
  show ?case by (cases "answer tr q") simp_all
next
  case (Cons a qs)
  show ?case by (cases "answer tr a") (simp_all add: Cons.IH)
qed

lemma make_requests_granted:
  "fst (make_requests answer tr qs) = None \<Longrightarrow>
   snd (make_requests answer tr qs) = tr @ map (\<lambda>q. (q, None)) qs"
proof (induction qs arbitrary: tr)
  case Nil
  then show ?case by simp
next
  case (Cons a qs)
  show ?case
  proof (cases "answer tr a")
    case None
    then show ?thesis using Cons.prems Cons.IH [of "tr @ [(a, None)]"] by simp
  next
    case (Some err)
    then show ?thesis using Cons.prems by simp
  qed
qed

lemma Join_already_present:
  assumes "distinct (map ID srvs)" and "distinct (map Address srvs)"
    and "\<exists>s\<in>set srvs. ID s = sid \<and> Address s = addr"
  shows "DistributedLog_Join answer (Inr srvs) sid addr = (None, [])"
proof -
  from assms(3) obtain s0 where s0: "s0 \<in> set srvs" "ID s0 = sid" "Address s0 = addr"
    by blast
  then obtain pre post where sp: "srvs = pre @ s0 # post"
    by (meson split_list)
  have "ID s0 \<notin> ID ` set pre" using assms(1) unfolding sp by auto
  moreover have "Address s0 \<notin> Address ` set pre" using assms(2) unfolding sp by auto
  ultimately have "\<forall>s\<in>set pre. ID s \<noteq> sid \<and> Address s \<noteq> addr"
    using s0(2,3) by (metis imageI)
  then have "Join_loop answer sid addr (pre @ s0 # post) [] = (Some None, [])"
    using s0(2,3) by (rule Join_loop_exact)
  then show ?thesis
    by (simp add: DistributedLog_Join_def sp)
qed

lemma Join_makes_requests:
  assumes "\<not> (\<exists>s\<in>set srvs. ID s = sid \<and> Address s = addr)"
  shows "DistributedLog_Join answer (Inr srvs) sid addr
           = make_requests answer [] (Join_requests srvs sid addr)"
proof -
  have nx: "\<forall>s\<in>set srvs. \<not> (ID s = sid \<and> Address s = addr)" using assms by blast
  let ?rm = "map (\<lambda>s. RemoveServer (ID s)) (filter (\<lambda>s. ID s = sid \<or> Address s = addr) srvs)"
  obtain r tr where m: "make_requests answer [] ?rm = (r, tr)" by (cases "make_requests answer [] ?rm")
  show ?thesis
    by (cases r)
       (simp_all add: DistributedLog_Join_def Join_loop_requests [OF nx] Join_requests_def
          make_requests_snoc m)
qed

text \<open>
  Claim C9, as amended. For every \<open>(id, addr)\<close> and every configuration in which no
  two servers share an ID or an address, whatever the consensus layer answers: if a
  server with this ID and this address is present, \<open>Join\<close> returns \<open>nil\<close> and makes no
  membership request; otherwise \<open>Join\<close> requests the removal, by ID, of each server
  that has the ID or the address, in the order of the configuration, and then the
  addition of \<open>(id, addr)\<close> as a voter, stops at the first request whose future reports
  an error and returns that error; when it returns \<open>nil\<close>, every one of these requests
  was made and granted; and when no server has the ID or the address, the addition
  is the only request.
\<close>

theorem DistributedLog_Join_behaviour:
  assumes "distinct (map ID srvs)" and "distinct (map Address srvs)"
  shows
   "((\<exists>s\<in>set srvs. ID s = sid \<and> Address s = addr) \<longrightarrow>
        DistributedLog_Join answer (Inr srvs) sid addr = (None, []))
    \<and> (\<not> (\<exists>s\<in>set srvs. ID s = sid \<and> Address s = addr) \<longrightarrow>
        DistributedLog_Join answer (Inr srvs) sid addr
          = make_requests answer [] (Join_requests srvs sid addr)
        \<and> (fst (DistributedLog_Join answer (Inr srvs) sid addr) = None \<longrightarrow>
             snd (DistributedLog_Join answer (Inr srvs) sid addr)
               = map (\<lambda>q. (q, None)) (Join_requests srvs sid addr)))
    \<and> (\<not> (\<exists>s\<in>set srvs. ID s = sid \<or> Address s = addr) \<longrightarrow>
        Join_requests srvs sid addr = [AddVoter sid addr])"
proof (intro conjI impI)
  assume "\<exists>s\<in>set srvs. ID s = sid \<and> Address s = addr"
  with assms show "DistributedLog_Join answer (Inr srvs) sid addr = (None, [])"
    by (rule Join_already_present)
next
  assume a: "\<not> (\<exists>s\<in>set srvs. ID s = sid \<and> Address s = addr)"
  show j: "DistributedLog_Join answer (Inr srvs) sid addr
          = make_requests answer [] (Join_requests srvs sid addr)"
    using a by (rule Join_makes_requests)
  assume "fst (DistributedLog_Join answer (Inr srvs) sid addr) = None"
  then have "fst (make_requests answer [] (Join_requests srvs sid addr)) = None"
    by (simp only: j)
  then have "snd (make_requests answer [] (Join_requests srvs sid addr))
               = [] @ map (\<lambda>q. (q, None)) (Join_requests srvs sid addr)"
    by (rule make_requests_granted)
  then show "snd (DistributedLog_Join answer (Inr srvs) sid addr)
               = map (\<lambda>q. (q, None)) (Join_requests srvs sid addr)"
    by (simp add: j)
next
  assume "\<not> (\<exists>s\<in>set srvs. ID s = sid \<or> Address s = addr)"
  then have "filter (\<lambda>s. ID s = sid \<or> Address s = addr) srvs = []"
    by (simp add: filter_empty_conv)
  then show "Join_requests srvs sid addr = [AddVoter sid addr]"
    by (simp add: Join_requests_def)
qed

theorem DistributedLog_Join_behaviour_witness:
  "distinct (map ID example_servers)
   \<and> distinct (map Address example_servers)
   \<and> \<lparr> Suffrage = Voter, ID = ''1'', Address = ''10.0.0.2:8400'' \<rparr> \<in> set example_servers
   \<and> DistributedLog_Join granting_leader (Inr example_servers) ''1'' ''10.0.0.2:8400'' = (None, [])
   \<and> DistributedLog_Join follower (Inr example_servers) ''1'' ''10.0.0.2:8400'' = (None, [])
   \<and> ''10.0.0.9:8400'' \<notin> set (map Address example_servers)
   \<and> DistributedLog_Join granting_leader (Inr example_servers) ''1'' ''10.0.0.9:8400''
        = (None, [(RemoveServer ''1'', None), (AddVoter ''1'' ''10.0.0.9:8400'', None)])
   \<and> DistributedLog_Join follower (Inr example_servers) ''1'' ''10.0.0.9:8400''
        = (Some ErrNotLeader, [(RemoveServer ''1'', Some ErrNotLeader)])
   \<and> ''2'' \<notin> set (map ID example_servers)
   \<and> ''10.0.0.3:8400'' \<notin> set (map Address example_servers)
   \<and> DistributedLog_Join granting_leader (Inr example_servers) ''2'' ''10.0.0.3:8400''
        = (None, [(AddVoter ''2'' ''10.0.0.3:8400'', None)])"
  using DistributedLog_Join_behaviour [of example_servers "''1''" "''10.0.0.2:8400''" granting_leader]
    DistributedLog_Join_behaviour [of example_servers "''1''" "''10.0.0.2:8400''" follower]
    DistributedLog_Join_behaviour [of example_servers "''1''" "''10.0.0.9:8400''" granting_leader]
    DistributedLog_Join_behaviour [of example_servers "''1''" "''10.0.0.9:8400''" follower]
    DistributedLog_Join_behaviour [of example_servers "''2''" "''10.0.0.3:8400''" granting_leader]
  by (simp add: example_servers_def granting_leader_def follower_def Join_requests_def)

text \<open>
  The claim as stated fails where the consensus layer refuses: on a follower, with no
  server matching the ID or the address, \<open>Join\<close> returns \<open>ErrNotLeader\<close> and its one
  request, the addition, was not granted, where the claim has the voter added.
\<close>

theorem DistributedLog_Join_follower_counterexample:
  "''2'' \<notin> set (map ID example_servers)
   \<and> ''10.0.0.3:8400'' \<notin> set (map Address example_servers)
   \<and> DistributedLog_Join follower (Inr example_servers) ''2'' ''10.0.0.3:8400''
        = (Some ErrNotLeader, [(AddVoter ''2'' ''10.0.0.3:8400'', Some ErrNotLeader)])"
  by (simp add: DistributedLog_Join_def example_servers_def follower_def)

text \<open>
  A leader asked to replace its own entry removes itself, and the addition that
  follows fails: \<open>Join\<close> returns the error of the second request.
\<close>

lemma DistributedLog_Join_removes_leader:
  "DistributedLog_Join leader_0 (Inr example_servers) ''0'' ''10.0.0.7:8400''
     = (Some ErrRaftShutdown,
        [(RemoveServer ''0'', None), (AddVoter ''0'' ''10.0.0.7:8400'', Some ErrRaftShutdown)])"
  by (simp add: DistributedLog_Join_def example_servers_def leader_0_def)

end
